theory Spec2Isabelle
  imports Main "HOL-Library.Sublist"
begin

section \<open>JSON values\<close>

text \<open>
  The values that \<^verbatim>\<open>JSON.parse\<close> returns. An object is the list of its own properties
  (the keys of a parsed object are pairwise distinct, so \<open>map_of\<close> reads a property).
  Numbers are modelled by integers; the code below only ever asks whether one is zero.
\<close>

datatype json =
    JNull
  | JBool bool
  | JNum int
  | JStr string
  | JArr "json list"
  | JObj "(string \<times> json) list"

text \<open>
  The result of reading a property: \<open>None\<close> is JavaScript's \<^verbatim>\<open>undefined\<close>.
  Truthiness as the language defines it: \<^verbatim>\<open>undefined\<close>, \<^verbatim>\<open>null\<close>, \<^verbatim>\<open>false\<close>,
  \<^verbatim>\<open>0\<close> and the empty string are falsy, everything else (arrays and objects too) is truthy.
\<close>

fun truthy :: "json option \<Rightarrow> bool" where
  "truthy None = False"
| "truthy (Some JNull) = False"
| "truthy (Some (JBool b)) = b"
| "truthy (Some (JNum n)) = (n \<noteq> 0)"
| "truthy (Some (JStr s)) = (s \<noteq> [])"
| "truthy (Some (JArr xs)) = True"
| "truthy (Some (JObj kvs)) = True"

datatype js_error = SyntaxError | TypeError | Error string

text \<open>
  \<^verbatim>\<open>item.key\<close> for one of the keys \<^verbatim>\<open>id\<close>, \<^verbatim>\<open>name\<close>, \<^verbatim>\<open>dataUrl\<close>: reading a
  property of \<^verbatim>\<open>null\<close> throws a TypeError; an object yields its own property or
  \<^verbatim>\<open>undefined\<close>; booleans, numbers, strings and arrays have no property of these names.
\<close>

fun getProp :: "json \<Rightarrow> string \<Rightarrow> js_error + json option" where
  "getProp JNull k = Inl TypeError"
| "getProp (JObj kvs) k = Inr (map_of kvs k)"
| "getProp v k = Inr None"

section \<open>Toasts\<close>

text \<open>
  A toast is modelled by its type: the message text is fixed by the call site, and
  \<^verbatim>\<open>restoreData\<close> shows its only toast of type \<^verbatim>\<open>error\<close> for a file it rejects.
\<close>

datatype toast_type = success | error | info

section \<open>Restoring a backup\<close>

text \<open>
  \<^verbatim>\<open>item => item.id && item.name && item.dataUrl\<close>. The operator \<^verbatim>\<open>&&\<close> evaluates its
  right operand only when the left one is truthy.
\<close>

definition validItem :: "json \<Rightarrow> js_error + bool" where
  "validItem item =
     (case getProp item ''id'' of
        Inl e \<Rightarrow> Inl e
      | Inr i \<Rightarrow>
          if \<not> truthy i then Inr False
          else (case getProp item ''name'' of
                  Inl e \<Rightarrow> Inl e
                | Inr n \<Rightarrow>
                    if \<not> truthy n then Inr False
                    else (case getProp item ''dataUrl'' of
                            Inl e \<Rightarrow> Inl e
                          | Inr d \<Rightarrow> Inr (truthy d))))"

text \<open>\<^verbatim>\<open>Array.prototype.every\<close>: stops at the first element that fails, or that throws.\<close>

fun every :: "(json \<Rightarrow> js_error + bool) \<Rightarrow> json list \<Rightarrow> js_error + bool" where
  "every p [] = Inr True"
| "every p (x # xs) =
     (case p x of
        Inl e \<Rightarrow> Inl e
      | Inr b \<Rightarrow> if b then every p xs else Inr False)"

text \<open>
  The body of the \<^verbatim>\<open>try\<close> block of \<^verbatim>\<open>restoreData\<close>. The text of the file is given by
  what \<^verbatim>\<open>JSON.parse\<close> makes of it: \<open>None\<close> when it throws a SyntaxError, the parsed
  value otherwise. The result is the array handed to \<^verbatim>\<open>setMedia\<close>.
\<close>

definition restoreTry :: "json option \<Rightarrow> js_error + json list" where
  "restoreTry text =
     (case text of
        None \<Rightarrow> Inl SyntaxError
      | Some restoredMedia \<Rightarrow>
          (case restoredMedia of
             JArr items \<Rightarrow>
               (case every validItem items of
                  Inl e \<Rightarrow> Inl e
                | Inr ok \<Rightarrow>
                    if ok then Inr items
                    else Inl (Error ''Invalid backup file format.''))
           | _ \<Rightarrow> Inl (Error ''Invalid backup file format.'')))"

text \<open>
  \<^verbatim>\<open>restoreData\<close>: the first argument is the selected file, if any, the second the
  stored catalog (the array persisted under the user's key). It returns the toast shown,
  if any, and the catalog afterwards. No file selected: nothing happens. Any exception of
  the \<^verbatim>\<open>try\<close> block is caught, an error toast is shown, and \<^verbatim>\<open>setMedia\<close> was not called.
\<close>

definition restoreData :: "json option option \<Rightarrow> json list \<Rightarrow> toast_type option \<times> json list" where
  "restoreData file media =
     (case file of
        None \<Rightarrow> (None, media)
      | Some text \<Rightarrow>
          (case restoreTry text of
             Inr restoredMedia \<Rightarrow> (Some success, restoredMedia)
           | Inl e \<Rightarrow> (Some error, media)))"

section \<open>Media records\<close>

text \<open>
  The interface \<^verbatim>\<open>MediaFile\<close>. Field names that clash with constants of the logic carry
  a prime. Strings are lists of characters (a character outside ASCII is the sequence of
  its bytes in UTF-8; equality, emptiness and the substring relation of well-formed
  strings do not depend on the encoding), numbers are integers, and the two optional
  fields are \<open>None\<close> when the property is \<^verbatim>\<open>undefined\<close>.
\<close>

datatype media_type = image | video

record MediaFile =
  id' :: string
  name :: string
  type' :: media_type
  mimeType :: string
  size' :: int
  dataUrl :: string
  category :: string
  tags :: "string list"
  uploadDate :: string
  views :: int
  width :: "int option"
  height :: "int option"

text \<open>\<^verbatim>\<open>Omit<MediaFile, 'id' | 'uploadDate' | 'views'>\<close>, the argument type of \<^verbatim>\<open>addMedia\<close>.\<close>

record NewMedia =
  n_name :: string
  n_type :: media_type
  n_mimeType :: string
  n_size :: int
  n_dataUrl :: string
  n_category :: string
  n_tags :: "string list"
  n_width :: "int option"
  n_height :: "int option"

text \<open>
  \<^verbatim>\<open>Partial<MediaFile>\<close>, the argument type of \<^verbatim>\<open>updateMedia\<close>: \<open>None\<close> is a property that
  the update does not have. For the two optional fields the update may also carry the
  property with the value \<^verbatim>\<open>undefined\<close> (\<open>Some None\<close>), which the spread copies.
\<close>

record PartialMedia =
  p_id :: "string option"
  p_name :: "string option"
  p_type :: "media_type option"
  p_mimeType :: "string option"
  p_size :: "int option"
  p_dataUrl :: "string option"
  p_category :: "string option"
  p_tags :: "string list option"
  p_uploadDate :: "string option"
  p_views :: "int option"
  p_width :: "int option option"
  p_height :: "int option option"

definition noUpdates :: PartialMedia where
  "noUpdates =
     \<lparr>p_id = None, p_name = None, p_type = None, p_mimeType = None, p_size = None,
      p_dataUrl = None, p_category = None, p_tags = None, p_uploadDate = None,
      p_views = None, p_width = None, p_height = None\<rparr>"

text \<open>The spread \<^verbatim>\<open>{ ...item, ...updates }\<close>: every property of the update wins.\<close>

definition orElse :: "'a option \<Rightarrow> 'a \<Rightarrow> 'a" where
  "orElse u old = (case u of None \<Rightarrow> old | Some v \<Rightarrow> v)"

definition spread :: "MediaFile \<Rightarrow> PartialMedia \<Rightarrow> MediaFile" where
  "spread item updates =
     \<lparr>id' = orElse (p_id updates) (id' item),
      name = orElse (p_name updates) (name item),
      type' = orElse (p_type updates) (type' item),
      mimeType = orElse (p_mimeType updates) (mimeType item),
      size' = orElse (p_size updates) (size' item),
      dataUrl = orElse (p_dataUrl updates) (dataUrl item),
      category = orElse (p_category updates) (category item),
      tags = orElse (p_tags updates) (tags item),
      uploadDate = orElse (p_uploadDate updates) (uploadDate item),
      views = orElse (p_views updates) (views item),
      width = orElse (p_width updates) (width item),
      height = orElse (p_height updates) (height item)\<rparr>"

section \<open>The media catalog\<close>

text \<open>
  What the environment hands to one \<^verbatim>\<open>files.map\<close> callback of \<^verbatim>\<open>addMedia\<close>: the value
  of \<^verbatim>\<open>Date.now()\<close> (milliseconds, a natural number), the value of \<^verbatim>\<open>Math.random()\<close>
  given by its decimal text (the conversion of a number to text is injective, so the
  text stands for the number), and the text of \<^verbatim>\<open>new Date().toISOString()\<close>.
\<close>

record draws =
  now :: nat
  random :: string
  isoString :: string

text \<open>The decimal text of a natural number, as the template literal prints it.\<close>

definition digit :: "nat \<Rightarrow> char" where
  "digit d = ''0123456789'' ! d"

fun showNat :: "nat \<Rightarrow> string" where
  "showNat n = (if n < 10 then [digit n] else showNat (n div 10) @ [digit (n mod 10)])"

declare showNat.simps [simp del]

text \<open>The template literal \<^verbatim>\<open>`${Date.now()}-${Math.random()}`\<close>.\<close>

definition newId :: "draws \<Rightarrow> string" where
  "newId d = showNat (now d) @ ''-'' @ random d"

definition newMediaItem :: "draws \<times> NewMedia \<Rightarrow> MediaFile" where
  "newMediaItem df =
     (let d = fst df; file = snd df in
      \<lparr>id' = newId d,
       name = n_name file,
       type' = n_type file,
       mimeType = n_mimeType file,
       size' = n_size file,
       dataUrl = n_dataUrl file,
       category = n_category file,
       tags = n_tags file,
       uploadDate = isoString d,
       views = 0,
       width = n_width file,
       height = n_height file\<rparr>)"

text \<open>
  The four mutators. Each is the function that \<^verbatim>\<open>setMedia\<close> applies to the stored
  catalog; each file of a batch comes with the draws of its own callback.
  \<^verbatim>\<open>incrementView\<close> reads the catalog of the current render, which is the value its
  update is applied to.
\<close>

definition addMedia :: "(draws \<times> NewMedia) list \<Rightarrow> MediaFile list \<Rightarrow> MediaFile list" where
  "addMedia files prev = map newMediaItem files @ prev"

definition deleteMedia :: "string \<Rightarrow> MediaFile list \<Rightarrow> MediaFile list" where
  "deleteMedia i prev = filter (\<lambda>item. id' item \<noteq> i) prev"

definition updateMedia :: "string \<Rightarrow> PartialMedia \<Rightarrow> MediaFile list \<Rightarrow> MediaFile list" where
  "updateMedia i updates prev = map (\<lambda>item. if id' item = i then spread item updates else item) prev"

text \<open>
  \<^verbatim>\<open>(media.find(m => m.id === id)?.views || 0) + 1\<close>. The left operand is the views of the
  first record with the id, or 0 when there is none (an integer is falsy exactly when it
  is 0, and then \<^verbatim>\<open>||\<close> yields the 0 on its right). The sum is a sum of IEEE doubles
  (\<open>addOne\<close>): for an integer \<open>v\<close> from \<open>- 2 ^ 53\<close> up to \<open>2 ^ 53 - 1\<close> it is
  \<open>v + 1\<close>. Beyond that \<open>v + 1\<close> is no double and the sum is the double nearest to it:
  up to \<open>2 ^ 54\<close> in size the doubles are the even integers, \<open>v + 1\<close> lies half way
  between \<open>v\<close> and \<open>v + 2\<close>, and the one with the even significand wins, which is
  \<open>v + 2\<close> when \<open>v mod 4 = 2\<close>; further out \<open>v\<close> itself is the nearest.
\<close>

definition readViews :: "string \<Rightarrow> MediaFile list \<Rightarrow> int" where
  "readViews i media =
     (case find (\<lambda>m. id' m = i) media of
        None \<Rightarrow> 0
      | Some m \<Rightarrow> if views m \<noteq> 0 then views m else 0)"

definition addOne :: "int \<Rightarrow> int" where
  "addOne v =
     (if - (2 ^ 53) \<le> v \<and> v < 2 ^ 53 then v + 1
      else if \<bar>v\<bar> \<le> 2 ^ 54 \<and> v mod 4 = 2 then v + 2
      else v)"

definition incrementView :: "string \<Rightarrow> MediaFile list \<Rightarrow> MediaFile list" where
  "incrementView i media =
     updateMedia i (noUpdates\<lparr>p_views := Some (addOne (readViews i media))\<rparr>) media"

section \<open>Backup\<close>

text \<open>
  The value that \<^verbatim>\<open>JSON.stringify\<close> writes for a record: its properties in the order in
  which \<^verbatim>\<open>handleUpload\<close> and \<^verbatim>\<open>addMedia\<close> create them; a property whose value is
  \<^verbatim>\<open>undefined\<close> is left out.
\<close>

definition optProp :: "string \<Rightarrow> int option \<Rightarrow> (string \<times> json) list" where
  "optProp k v = (case v of None \<Rightarrow> [] | Some n \<Rightarrow> [(k, JNum n)])"

definition typeName :: "media_type \<Rightarrow> string" where
  "typeName t = (case t of image \<Rightarrow> ''image'' | video \<Rightarrow> ''video'')"

definition toJSON :: "MediaFile \<Rightarrow> json" where
  "toJSON m =
     JObj ([(''name'', JStr (name m)),
            (''type'', JStr (typeName (type' m))),
            (''mimeType'', JStr (mimeType m)),
            (''size'', JNum (size' m)),
            (''dataUrl'', JStr (dataUrl m)),
            (''category'', JStr (category m)),
            (''tags'', JArr (map JStr (tags m)))]
           @ optProp ''width'' (width m)
           @ optProp ''height'' (height m)
           @ [(''id'', JStr (id' m)),
              (''uploadDate'', JStr (uploadDate m)),
              (''views'', JNum (views m))])"

record User =
  username :: string
  password :: "string option"

text \<open>
  \<^verbatim>\<open>backupData\<close>: without a logged-in user nothing happens. Otherwise the download is the
  file name and the document (given, like the input of \<^verbatim>\<open>restoreData\<close>, by its JSON
  value), and a success toast is shown. The second argument is the text of
  \<^verbatim>\<open>new Date().toISOString()\<close>, cut at its first \<^verbatim>\<open>T\<close>.
\<close>

definition backupData ::
  "User option \<Rightarrow> string \<Rightarrow> MediaFile list \<Rightarrow> (string \<times> json) option \<times> toast_type option" where
  "backupData user isoNow media =
     (case user of
        None \<Rightarrow> (None, None)
      | Some u \<Rightarrow>
          (let dataStr = JArr (map toJSON media);
               exportFileDefaultName =
                 ''guardmidia_backup_'' @ username u @ ''_''
                 @ takeWhile (\<lambda>c. c \<noteq> CHR ''T'') isoNow @ ''.json''
           in (Some (exportFileDefaultName, dataStr), Some success)))"

section \<open>The account directory\<close>

text \<open>
  \<^verbatim>\<open>users\<close> is a \<^verbatim>\<open>Record<string, string>\<close>: an object, created as \<^verbatim>\<open>{}\<close> or by
  \<^verbatim>\<open>JSON.parse\<close>, whose own properties are the stored accounts. Reading \<^verbatim>\<open>users[u]\<close>
  gives the own property if there is one, else what the object inherits from
  \<^verbatim>\<open>Object.prototype\<close> under that name (a function or an object, never a string), else
  \<^verbatim>\<open>undefined\<close>. \<^verbatim>\<open>undefined\<close> and the empty string are falsy.
\<close>

type_synonym directory = "string \<rightharpoonup> string"

datatype property = Undefined | Str string | Inherited

definition objectPrototypeKeys :: "string list" where
  "objectPrototypeKeys =
     [''constructor'', ''hasOwnProperty'', ''isPrototypeOf'', ''propertyIsEnumerable'',
      ''toLocaleString'', ''toString'', ''valueOf'', ''__proto__'', ''__defineGetter__'',
      ''__defineSetter__'', ''__lookupGetter__'', ''__lookupSetter__'']"

definition readKey :: "directory \<Rightarrow> string \<Rightarrow> property" where
  "readKey users u =
     (case users u of
        Some p \<Rightarrow> Str p
      | None \<Rightarrow> if u \<in> set objectPrototypeKeys then Inherited else Undefined)"

fun truthyProp :: "property \<Rightarrow> bool" where
  "truthyProp Undefined = False"
| "truthyProp (Str s) = (s \<noteq> [])"
| "truthyProp Inherited = True"

text \<open>\<^verbatim>\<open>credentials.password\<close>, a string or \<^verbatim>\<open>undefined\<close>.\<close>

definition given :: "string option \<Rightarrow> property" where
  "given p = (case p of None \<Rightarrow> Undefined | Some s \<Rightarrow> Str s)"

text \<open>
  \<^verbatim>\<open>login\<close> returns whether it succeeded and the session afterwards (the state
  \<^verbatim>\<open>user\<close>); \<^verbatim>\<open>register\<close> returns whether it succeeded and the directory afterwards.
  A password that is \<^verbatim>\<open>undefined\<close> is stored as \<^verbatim>\<open>undefined\<close>, which reads like a
  missing key.
\<close>

definition login :: "User \<Rightarrow> directory \<Rightarrow> User option \<Rightarrow> bool \<times> User option" where
  "login credentials users user =
     (if truthyProp (readKey users (username credentials))
         \<and> readKey users (username credentials) = given (password credentials)
      then (True, Some \<lparr>username = username credentials, password = None\<rparr>)
      else (False, user))"

definition logout :: "User option \<Rightarrow> User option" where
  "logout user = None"

definition register :: "User \<Rightarrow> directory \<Rightarrow> bool \<times> directory" where
  "register credentials users =
     (if truthyProp (readKey users (username credentials)) then (False, users)
      else (True, users(username credentials := password credentials)))"

text \<open>
  \<^verbatim>\<open>handleSubmit\<close> of the sign-in page. An empty username or password is refused before
  anything is called. Both calls of a sign-up go through the closures of the render on
  which the form was submitted: \<^verbatim>\<open>register\<close> hands the new directory to the next render,
  and \<^verbatim>\<open>login\<close>, called right after it, reads the directory of this one. The result is
  the error shown, if any, the directory and the session afterwards.
\<close>

datatype form_error = Required | UsernameExists | InvalidCredentials

definition handleSubmit ::
  "bool \<Rightarrow> string \<Rightarrow> string \<Rightarrow> directory \<Rightarrow> User option
   \<Rightarrow> form_error option \<times> directory \<times> User option" where
  "handleSubmit showRegister usernameText passwordText users user =
     (if usernameText = [] \<or> passwordText = [] then (Some Required, users, user)
      else
        (let credentials = \<lparr>username = usernameText, password = Some passwordText\<rparr> in
         if showRegister then
           (if fst (register credentials users)
            then (None, snd (register credentials users), snd (login credentials users user))
            else (Some UsernameExists, users, user))
         else
           (if fst (login credentials users user)
            then (None, users, snd (login credentials users user))
            else (Some InvalidCredentials, users, user))))"

section \<open>The catalog view\<close>

text \<open>
  \<^verbatim>\<open>String.prototype.toLowerCase\<close> maps every cased letter of Unicode. It is the
  platform's function, so the view takes it as its first argument, and what is proved of
  the view holds for whatever it does. \<open>lowerASCII\<close> is what it does on ASCII text (the
  letters A to Z are mapped, every other character is left as it is); the examples use it.
  \<^verbatim>\<open>includes\<close> (primed here, the plain name being reserved) looks for its argument at
  every position of the string, the end included, so it finds the empty string everywhere.
\<close>

definition lowerChar :: "char \<Rightarrow> char" where
  "lowerChar c =
     (case map_of (zip ''ABCDEFGHIJKLMNOPQRSTUVWXYZ'' ''abcdefghijklmnopqrstuvwxyz'') c of
        None \<Rightarrow> c
      | Some l \<Rightarrow> l)"

definition lowerASCII :: "string \<Rightarrow> string" where
  "lowerASCII s = map lowerChar s"

fun includes' :: "string \<Rightarrow> string \<Rightarrow> bool" where
  "includes' [] t = (t = [])"
| "includes' (c # s) t = (prefix t (c # s) \<or> includes' s t)"

definition inCategory :: "string \<Rightarrow> MediaFile \<Rightarrow> bool" where
  "inCategory activeCategory item =
     (activeCategory = ''Todos'' \<or> category item = activeCategory)"

definition matchesSearch :: "(string \<Rightarrow> string) \<Rightarrow> string \<Rightarrow> MediaFile \<Rightarrow> bool" where
  "matchesSearch toLowerCase lowerCaseSearch item =
     (includes' (toLowerCase (name item)) lowerCaseSearch
      \<or> includes' (toLowerCase (category item)) lowerCaseSearch
      \<or> list_ex (\<lambda>tag. includes' (toLowerCase tag) lowerCaseSearch) (tags item))"

text \<open>The effect of \<^verbatim>\<open>MediaGrid\<close>: the value it stores in \<^verbatim>\<open>filteredMedia\<close>.\<close>

definition filteredMedia ::
  "(string \<Rightarrow> string) \<Rightarrow> MediaFile list \<Rightarrow> string \<Rightarrow> string \<Rightarrow> MediaFile list" where
  "filteredMedia toLowerCase media searchTerm activeCategory =
     (let lowerCaseSearch = toLowerCase searchTerm in
      filter
        (\<lambda>item. inCategory activeCategory item \<and> matchesSearch toLowerCase lowerCaseSearch item)
        media)"

section \<open>Sequences of calls\<close>

text \<open>
  A call of one of the four mutators of the catalog, and the catalog after a sequence of
  calls, each one working on the catalog that the one before it left.
\<close>

datatype catalog_op =
    Add "(draws \<times> NewMedia) list"
  | Delete string
  | Update string PartialMedia
  | IncrementView string

fun applyOp :: "catalog_op \<Rightarrow> MediaFile list \<Rightarrow> MediaFile list" where
  "applyOp (Add files) media = addMedia files media"
| "applyOp (Delete i) media = deleteMedia i media"
| "applyOp (Update i updates) media = updateMedia i updates media"
| "applyOp (IncrementView i) media = incrementView i media"

fun run :: "catalog_op list \<Rightarrow> MediaFile list \<Rightarrow> MediaFile list" where
  "run [] media = media"
| "run (c # cs) media = run cs (applyOp c media)"

text \<open>
  \<^verbatim>\<open>setValue\<close> of \<^verbatim>\<open>useLocalStorage\<close>: the new stored value is the updater applied to
  \<^verbatim>\<open>storedValue\<close>, the value of the render that made this \<^verbatim>\<open>setValue\<close>. A mutator called
  through the closures of an earlier render therefore works on the catalog of that
  render. \<^verbatim>\<open>handleUpload\<close> does so: it calls \<^verbatim>\<open>addMedia\<close> only after awaiting the file
  reads and the tagging, with the closure of the render on which the upload was started.
  \<open>Call k c\<close> is the call \<open>c\<close> made through the closures of render \<open>k\<close> (the renders are
  counted from 0, and each call that is played adds one); a call naming a render that
  does not exist yet is skipped.
\<close>

definition setValue :: "('a \<Rightarrow> 'a) \<Rightarrow> 'a \<Rightarrow> 'a" where
  "setValue updater storedValue = updater storedValue"

datatype call = Call nat catalog_op

fun play :: "call list \<Rightarrow> MediaFile list list \<Rightarrow> MediaFile list list" where
  "play [] renders = renders"
| "play (Call k c # cs) renders =
     (if k < length renders then play cs (renders @ [setValue (applyOp c) (renders ! k)])
      else play cs renders)"

section \<open>Notions of the specification\<close>

text \<open>
  An element of a backup has a non-empty field \<open>k\<close> when it is an object with a property
  \<open>k\<close> whose value is none of \<^verbatim>\<open>null\<close>, \<^verbatim>\<open>false\<close>, \<^verbatim>\<open>0\<close> and the empty string.
  For a string value this says that the string is not empty.
\<close>

definition nonEmptyField :: "json \<Rightarrow> string \<Rightarrow> bool" where
  "nonEmptyField item k =
     (case item of
        JObj kvs \<Rightarrow>
          (case map_of kvs k of
             None \<Rightarrow> False
           | Some v \<Rightarrow> v \<noteq> JNull \<and> v \<noteq> JBool False \<and> v \<noteq> JNum 0 \<and> v \<noteq> JStr [])
      | _ \<Rightarrow> False)"

definition validElement :: "json \<Rightarrow> bool" where
  "validElement item =
     (nonEmptyField item ''id'' \<and> nonEmptyField item ''name'' \<and> nonEmptyField item ''dataUrl'')"

text \<open>
  A well-formed record has an id, a name and a content: \<^verbatim>\<open>addMedia\<close> always writes an id
  with a hyphen in it, a data URL starts with \<^verbatim>\<open>data:\<close>, and a file has a name.
\<close>

definition wellFormed :: "MediaFile \<Rightarrow> bool" where
  "wellFormed m = (id' m \<noteq> [] \<and> name m \<noteq> [] \<and> dataUrl m \<noteq> [])"

text \<open>
  The two filters of the catalog view, in the words of the specification, for a given
  lowercasing of strings. A substring is a contiguous part: \<open>sublist t s\<close> says that
  \<open>s = ps @ t @ ss\<close> for some \<open>ps\<close>, \<open>ss\<close>.
\<close>

definition passesCategory :: "string \<Rightarrow> MediaFile \<Rightarrow> bool" where
  "passesCategory activeCategory r = (activeCategory = ''Todos'' \<or> category r = activeCategory)"

definition passesText :: "(string \<Rightarrow> string) \<Rightarrow> string \<Rightarrow> MediaFile \<Rightarrow> bool" where
  "passesText toLowerCase searchTerm r =
     (sublist (toLowerCase searchTerm) (toLowerCase (name r))
      \<or> sublist (toLowerCase searchTerm) (toLowerCase (category r))
      \<or> (\<exists>tag\<in>set (tags r). sublist (toLowerCase searchTerm) (toLowerCase tag)))"

text \<open>
  A sequence of \<^verbatim>\<open>register\<close> calls: the directory it leaves, and the credentials of the
  calls that succeeded, in order.
\<close>

fun registerAll :: "User list \<Rightarrow> directory \<Rightarrow> directory" where
  "registerAll [] users = users"
| "registerAll (c # cs) users = registerAll cs (snd (register c users))"

fun accepted :: "User list \<Rightarrow> directory \<Rightarrow> User list" where
  "accepted [] users = []"
| "accepted (c # cs) users =
     (if fst (register c users) then c # accepted cs (snd (register c users))
      else accepted cs (snd (register c users)))"

text \<open>
  The credentials of a valid registration, the only ones the sign-up form passes on:
  \<^verbatim>\<open>handleSubmit\<close> returns early when the username or the password is empty.
\<close>

definition hasPassword :: "User \<Rightarrow> bool" where
  "hasPassword c = (case password c of None \<Rightarrow> False | Some p \<Rightarrow> p \<noteq> [])"

definition validCredentials :: "User \<Rightarrow> bool" where
  "validCredentials c = (username c \<noteq> [] \<and> hasPassword c)"

definition nonEmptyPasswords :: "directory \<Rightarrow> bool" where
  "nonEmptyPasswords users = (\<forall>u. users u \<noteq> Some [])"

section \<open>Conditions on calls\<close>

text \<open>
  The pair of \<^verbatim>\<open>Date.now()\<close> and \<^verbatim>\<open>Math.random()\<close> that a new record's id is made of.
  A batch is fresh for a catalog when these pairs differ from record to record and none
  of the ids made of them is the id of a record of the catalog.
\<close>

definition drawOf :: "draws \<times> NewMedia \<Rightarrow> nat \<times> string" where
  "drawOf f = (now (fst f), random (fst f))"

definition freshAdd :: "(draws \<times> NewMedia) list \<Rightarrow> MediaFile list \<Rightarrow> bool" where
  "freshAdd files media =
     (distinct (map drawOf files) \<and> (\<forall>f\<in>set files. newId (fst f) \<notin> set (map id' media)))"

text \<open>An update for the id \<open>i\<close> keeps the id: it has no \<^verbatim>\<open>id\<close> property, or repeats \<open>i\<close>.\<close>

definition keepsId :: "string \<Rightarrow> PartialMedia \<Rightarrow> bool" where
  "keepsId i u = (p_id u = None \<or> p_id u = Some i)"

fun keepsIds :: "catalog_op \<Rightarrow> MediaFile list \<Rightarrow> bool" where
  "keepsIds (Add files) media = freshAdd files media"
| "keepsIds (Delete i) media = True"
| "keepsIds (Update i u) media = keepsId i u"
| "keepsIds (IncrementView i) media = True"

fun allKeepIds :: "catalog_op list \<Rightarrow> MediaFile list \<Rightarrow> bool" where
  "allKeepIds [] media = True"
| "allKeepIds (c # cs) media = (keepsIds c media \<and> allKeepIds cs (applyOp c media))"

section \<open>Sample data\<close>

definition sunset :: MediaFile where
  "sunset =
     \<lparr>id' = ''1700000000000-0.25'', name = ''sunset.jpg'', type' = image,
      mimeType = ''image/jpeg'', size' = 2048, dataUrl = ''data:image/jpeg;base64,AAAA'',
      category = ''Nature'', tags = [''beach''], uploadDate = ''2023-11-14T22:13:20.000Z'',
      views = 0, width = Some 640, height = Some 480\<rparr>"

definition clip :: MediaFile where
  "clip =
     \<lparr>id' = ''1600000000000-0.5'', name = ''clip.mp4'', type' = video,
      mimeType = ''video/mp4'', size' = 4096, dataUrl = ''data:video/mp4;base64,BBBB'',
      category = ''Sem Categoria'', tags = [], uploadDate = ''2020-09-13T12:26:40.000Z'',
      views = 3, width = None, height = None\<rparr>"

definition bob :: "string \<Rightarrow> User" where
  "bob p = \<lparr>username = ''bob'', password = Some p\<rparr>"

text \<open>Two draws of the same millisecond, and an uploaded image.\<close>

definition noon :: draws where
  "noon = \<lparr>now = 1700000000123, random = ''0.5'', isoString = ''2023-11-14T22:13:20.123Z''\<rparr>"

definition noon2 :: draws where
  "noon2 = \<lparr>now = 1700000000123, random = ''0.75'', isoString = ''2023-11-14T22:13:20.123Z''\<rparr>"

definition photo :: NewMedia where
  "photo =
     \<lparr>n_name = ''photo.png'', n_type = image, n_mimeType = ''image/png'', n_size = 1024,
      n_dataUrl = ''data:image/png;base64,CCCC'', n_category = ''Sem Categoria'',
      n_tags = [''IA Desativada''], n_width = Some 10, n_height = Some 20\<rparr>"

text \<open>A catalog in which two records have the same id.\<close>

definition twins :: "MediaFile list" where
  "twins = [clip\<lparr>views := 5\<rparr>, sunset\<lparr>id' := id' clip\<rparr>]"

text \<open>A sequence of calls on the catalog \<open>[sunset, clip]\<close>.\<close>

definition tidyCalls :: "catalog_op list" where
  "tidyCalls =
     [Add [(noon, photo), (noon2, photo)],
      Update (id' sunset) (noUpdates\<lparr>p_category := Some ''Trips''\<rparr>),
      Delete (id' clip)]"

section \<open>Restore: validation and overwrite\<close>

lemma truthy_iff:
  "truthy v \<longleftrightarrow>
     (\<exists>w. v = Some w \<and> w \<noteq> JNull \<and> w \<noteq> JBool False \<and> w \<noteq> JNum 0 \<and> w \<noteq> JStr [])"
  by (cases v rule: truthy.cases) auto

lemma validItem_Inr: "item \<noteq> JNull \<Longrightarrow> validItem item = Inr (validElement item)"
  by (cases item)
    (auto simp: validItem_def validElement_def nonEmptyField_def truthy_iff split: option.splits)

lemma validItem_JNull: "validItem JNull = Inl TypeError"
  by (simp add: validItem_def)

lemma validElement_JNull: "\<not> validElement JNull"
  by (simp add: validElement_def nonEmptyField_def)

lemma every_validItem:
  "(every validItem items = Inr True) = (\<forall>item\<in>set items. validElement item)"
proof (induction items)
  case Nil
  show ?case by simp
next
  case (Cons x xs)
  show ?case
  proof (cases "x = JNull")
    case True
    then show ?thesis by (simp add: validItem_JNull validElement_JNull)
  next
    case False
    then show ?thesis using Cons by (simp add: validItem_Inr)
  qed
qed

lemma restoreTry_cases:
  "restoreTry doc = Inr items \<longleftrightarrow>
     doc = Some (JArr items) \<and> (\<forall>item\<in>set items. validElement item)"
  unfolding restoreTry_def every_validItem [symmetric]
  by (auto split: option.splits json.splits sum.splits)

lemma restoreData_char:
  "restoreData (Some doc) media =
     (case doc of
        Some (JArr items) \<Rightarrow>
          if \<forall>item\<in>set items. validElement item then (Some success, items)
          else (Some error, media)
      | _ \<Rightarrow> (Some error, media))"
proof (cases "restoreTry doc")
  case (Inl e)
  then have "\<And>items. \<not> (doc = Some (JArr items) \<and> (\<forall>item\<in>set items. validElement item))"
    using restoreTry_cases [of doc] by simp
  then show ?thesis using Inl
    by (auto simp: restoreData_def split: option.splits json.splits)
next
  case (Inr items)
  then have "doc = Some (JArr items) \<and> (\<forall>item\<in>set items. validElement item)"
    using restoreTry_cases [of doc items] by simp
  then show ?thesis using Inr
    by (simp add: restoreData_def)
qed

text \<open>
  C2. \<^verbatim>\<open>restoreData\<close> accepts exactly the documents that parse to an array whose every
  element has non-empty \<^verbatim>\<open>id\<close>, \<^verbatim>\<open>name\<close> and \<^verbatim>\<open>dataUrl\<close>. It then shows the success
  toast and the catalog becomes the parsed array, whatever the catalog was before. For
  every other document (one that does not parse, one that is not an array, one with an
  element that fails the check, in particular an element without \<^verbatim>\<open>id\<close>) it shows the
  error toast and the catalog is the one from before.
\<close>

theorem restoreData_validates:
  "restoreData (Some doc) media =
     (case doc of
        Some (JArr items) \<Rightarrow>
          if \<forall>item\<in>set items. validElement item then (Some success, items)
          else (Some error, media)
      | _ \<Rightarrow> (Some error, media))
   \<and> (doc = Some (JArr items') \<and> JObj kvs \<in> set items' \<and> map_of kvs ''id'' = None
        \<longrightarrow> restoreData (Some doc) media = (Some error, media))"
proof (intro conjI impI)
  show "restoreData (Some doc) media =
     (case doc of
        Some (JArr items) \<Rightarrow>
          if \<forall>item\<in>set items. validElement item then (Some success, items)
          else (Some error, media)
      | _ \<Rightarrow> (Some error, media))"
    by (rule restoreData_char)
next
  assume missing: "doc = Some (JArr items') \<and> JObj kvs \<in> set items' \<and> map_of kvs ''id'' = None"
  then have "\<not> validElement (JObj kvs)"
    by (simp add: validElement_def nonEmptyField_def)
  then have "\<not> (\<forall>item\<in>set items'. validElement item)"
    using missing by blast
  then show "restoreData (Some doc) media = (Some error, media)"
    using missing by (simp add: restoreData_char)
qed

theorem restoreData_validates_witness:
  "restoreData
     (Some (Some (JArr [JObj [(''id'', JStr ''7-0.5''), (''name'', JStr ''a.png''),
                              (''dataUrl'', JStr ''data:x'')]])))
     [JObj [(''id'', JStr ''old'')]]
   = (Some success,
      [JObj [(''id'', JStr ''7-0.5''), (''name'', JStr ''a.png''), (''dataUrl'', JStr ''data:x'')]])
   \<and> restoreData
       (Some (Some (JArr [JObj [(''name'', JStr ''a.png''), (''dataUrl'', JStr ''data:x'')]])))
       [JObj [(''id'', JStr ''old'')]]
     = (Some error, [JObj [(''id'', JStr ''old'')]])
   \<and> restoreData (Some None) [JObj [(''id'', JStr ''old'')]]
     = (Some error, [JObj [(''id'', JStr ''old'')]])"
  using
    restoreData_validates
      [of "Some (JArr [JObj [(''id'', JStr ''7-0.5''), (''name'', JStr ''a.png''),
                             (''dataUrl'', JStr ''data:x'')]])"
          "[JObj [(''id'', JStr ''old'')]]" "[]" "[]"]
    restoreData_validates
      [of "Some (JArr [JObj [(''name'', JStr ''a.png''), (''dataUrl'', JStr ''data:x'')]])"
          "[JObj [(''id'', JStr ''old'')]]"
          "[JObj [(''name'', JStr ''a.png''), (''dataUrl'', JStr ''data:x'')]]"
          "[(''name'', JStr ''a.png''), (''dataUrl'', JStr ''data:x'')]"]
    restoreData_validates [of None "[JObj [(''id'', JStr ''old'')]]" "[]" "[]"]
  by (simp add: validElement_def nonEmptyField_def)

text \<open>
  C10. A document that parses to the empty array passes the validation, and the catalog
  becomes empty, whatever it held before.
\<close>

theorem restoreData_empty_array:
  "restoreData (Some (Some (JArr []))) media = (Some success, [])"
  by (simp add: restoreData_char)

section \<open>Backup then restore\<close>

lemma typeName_inj: "typeName a = typeName b \<Longrightarrow> a = b"
  by (cases a; cases b) (simp_all add: typeName_def)

lemma map_JStr_inj: "map JStr xs = map JStr ys \<Longrightarrow> xs = ys"
  by (simp add: inj_def)

lemma toJSON_inj: "toJSON m = toJSON m' \<Longrightarrow> m = m'"
  by (cases m; cases m')
    (auto simp: toJSON_def optProp_def split: option.splits dest: typeName_inj map_JStr_inj)

lemma map_toJSON_inj: "map toJSON ms = map toJSON ms' \<Longrightarrow> ms = ms'"
  using toJSON_inj by (simp add: inj_def)

lemma validElement_toJSON: "validElement (toJSON m) = wellFormed m"
  by (auto simp: validElement_def nonEmptyField_def wellFormed_def toJSON_def optProp_def
      split: option.splits)

text \<open>
  C1. For a catalog of well-formed records and a logged-in user, \<^verbatim>\<open>backupData\<close> produces
  a document, and \<^verbatim>\<open>restoreData\<close> on that document succeeds and stores the array of
  the original records, in the original order, whatever the catalog held at that moment.
  The stored array determines the catalog: no other list of records is written the same.
\<close>

theorem backup_restore_roundtrip:
  assumes "\<forall>m\<in>set media. wellFormed m"
  shows "\<exists>fileName doc.
           backupData (Some u) isoNow media = (Some (fileName, doc), Some success)
           \<and> restoreData (Some (Some doc)) current = (Some success, map toJSON media)
           \<and> (\<forall>media'. map toJSON media' = map toJSON media \<longrightarrow> media' = media)"
proof -
  have "restoreData (Some (Some (JArr (map toJSON media)))) current
        = (Some success, map toJSON media)"
    using assms by (simp add: restoreData_char validElement_toJSON)
  then show ?thesis
    using map_toJSON_inj by (auto simp: backupData_def Let_def)
qed

theorem backup_restore_roundtrip_witness:
  "wellFormed \<lparr>id' = ''7-0.5'', name = ''a.png'', type' = image, mimeType = ''image/png'',
               size' = 3, dataUrl = ''data:x'', category = ''Sem Categoria'',
               tags = [''beach''], uploadDate = ''2024-01-01T00:00:00.000Z'', views = 0,
               width = Some 1, height = Some 2\<rparr>
   \<and> restoreData
       (Some (Some (JArr [toJSON \<lparr>id' = ''7-0.5'', name = ''a.png'', type' = image,
                   mimeType = ''image/png'', size' = 3, dataUrl = ''data:x'',
                   category = ''Sem Categoria'', tags = [''beach''],
                   uploadDate = ''2024-01-01T00:00:00.000Z'', views = 0,
                   width = Some 1, height = Some 2\<rparr>]))) []
     = (Some success,
        [toJSON \<lparr>id' = ''7-0.5'', name = ''a.png'', type' = image, mimeType = ''image/png'',
                 size' = 3, dataUrl = ''data:x'', category = ''Sem Categoria'',
                 tags = [''beach''], uploadDate = ''2024-01-01T00:00:00.000Z'', views = 0,
                 width = Some 1, height = Some 2\<rparr>])"
  using backup_restore_roundtrip
    [of "[\<lparr>id' = ''7-0.5'', name = ''a.png'', type' = image, mimeType = ''image/png'',
           size' = 3, dataUrl = ''data:x'', category = ''Sem Categoria'',
           tags = [''beach''], uploadDate = ''2024-01-01T00:00:00.000Z'', views = 0,
           width = Some 1, height = Some 2\<rparr>]"
        "\<lparr>username = ''ana'', password = None\<rparr>" "''2024-01-02T10:00:00.000Z''" "[]"]
  by (simp add: wellFormed_def backupData_def)

section \<open>View counts\<close>

lemma spread_views: "spread m (noUpdates\<lparr>p_views := Some v\<rparr>) = m\<lparr>views := v\<rparr>"
  by (simp add: spread_def noUpdates_def orElse_def)

lemma incrementView_map:
  "incrementView i media =
     map (\<lambda>m. if id' m = i then m\<lparr>views := addOne (readViews i media)\<rparr> else m) media"
  by (simp add: incrementView_def updateMedia_def spread_views)

lemma find_map_views:
  "find (\<lambda>m. id' m = i) (map (\<lambda>m. if id' m = i then m\<lparr>views := v\<rparr> else m) media)
   = map_option (\<lambda>m. m\<lparr>views := v\<rparr>) (find (\<lambda>m. id' m = i) media)"
  by (induction media) auto

lemma readViews_found: "find (\<lambda>m. id' m = i) media = Some r \<Longrightarrow> readViews i media = views r"
  by (simp add: readViews_def)

lemma incrementView_found:
  "find (\<lambda>m. id' m = i) media = Some r \<Longrightarrow>
   find (\<lambda>m. id' m = i) (incrementView i media) = Some (r\<lparr>views := addOne (views r)\<rparr>)"
  by (simp add: incrementView_map find_map_views readViews_found)

lemma incrementView_funpow:
  "find (\<lambda>m. id' m = i) media = Some r \<Longrightarrow>
   find (\<lambda>m. id' m = i) ((incrementView i ^^ n) media)
     = Some (r\<lparr>views := (addOne ^^ n) (views r)\<rparr>)"
proof (induction n)
  case 0
  then show ?case by simp
next
  case (Suc n)
  then show ?case by (simp add: incrementView_found)
qed

lemma addOne_exact: "- (2 ^ 53) \<le> v \<Longrightarrow> v < 2 ^ 53 \<Longrightarrow> addOne v = v + 1"
  by (simp add: addOne_def)

lemma addOne_limit: "addOne (2 ^ 53) = 2 ^ 53"
  by (simp add: addOne_def)

lemma addOne_count: "n \<le> 2 ^ 53 \<Longrightarrow> (addOne ^^ n) 0 = int n"
proof (induction n)
  case 0
  show ?case by simp
next
  case (Suc n)
  have "n < 2 ^ 53"
    using Suc.prems by simp
  then have "int n < int (2 ^ 53)"
    by (simp only: of_nat_less_iff)
  then have small: "int n < 2 ^ 53"
    by simp
  have "(addOne ^^ n) 0 = int n"
    using Suc by simp
  then show ?case
    using small by (simp add: addOne_exact)
qed

lemma ids_incrementView: "map id' (incrementView i media) = map id' media"
  by (simp add: incrementView_map)

lemma ids_incrementView_funpow: "map id' ((incrementView i ^^ n) media) = map id' media"
  by (induction n) (simp_all add: ids_incrementView)

lemma find_distinct:
  "distinct (map id' media) \<Longrightarrow> find (\<lambda>m. id' m = i) media = Some r \<Longrightarrow>
   m \<in> set media \<Longrightarrow> id' m = i \<Longrightarrow> m = r"
  by (induction media) (auto split: if_splits)

lemma same_id_same_record:
  "distinct (map id' media) \<Longrightarrow> r \<in> set media \<Longrightarrow> r' \<in> set media \<Longrightarrow>
   id' r' = id' r \<Longrightarrow> r' = r"
  by (simp add: distinct_map inj_on_def)

lemma find_member:
  "distinct (map id' media) \<Longrightarrow> r \<in> set media \<Longrightarrow>
   find (\<lambda>m. id' m = id' r) media = Some r"
  by (induction media) (auto simp: rev_image_eqI)

text \<open>
  C4, as the code has it. Let the record that \<^verbatim>\<open>find\<close> returns for the id, the first one
  with it, have view count 0, and let \<open>n\<close> be at most \<open>2 ^ 53\<close>. Then after \<open>n\<close> calls of
  \<^verbatim>\<open>incrementView\<close> for the id, each on the catalog the previous call left, it is that
  record with view count \<open>n\<close>. In a catalog with pairwise distinct ids this is the record
  with the id, and the only one. A single call reads the view count of that record and
  writes the sum of it and 1 as doubles, which is the count plus one below \<open>2 ^ 53\<close>.
\<close>

theorem incrementView_n_times:
  "(find (\<lambda>m. id' m = i) media = Some r \<and> views r = 0 \<and> n \<le> 2 ^ 53 \<longrightarrow>
      find (\<lambda>m. id' m = i) ((incrementView i ^^ n) media) = Some (r\<lparr>views := int n\<rparr>))
   \<and> (distinct (map id' media) \<and> r \<in> set media \<and> views r = 0 \<and> n \<le> 2 ^ 53 \<longrightarrow>
        r\<lparr>views := int n\<rparr> \<in> set ((incrementView (id' r) ^^ n) media)
        \<and> (\<forall>m\<in>set ((incrementView (id' r) ^^ n) media).
              id' m = id' r \<longrightarrow> m = r\<lparr>views := int n\<rparr>))
   \<and> (find (\<lambda>m. id' m = i) media = Some r0 \<longrightarrow>
        incrementView i media
          = updateMedia i (noUpdates\<lparr>p_views := Some (addOne (views r0))\<rparr>) media
        \<and> find (\<lambda>m. id' m = i) (incrementView i media) = Some (r0\<lparr>views := addOne (views r0)\<rparr>)
        \<and> (- (2 ^ 53) \<le> views r0 \<and> views r0 < 2 ^ 53 \<longrightarrow> addOne (views r0) = views r0 + 1))"
proof (intro conjI impI)
  assume "find (\<lambda>m. id' m = i) media = Some r \<and> views r = 0 \<and> n \<le> 2 ^ 53"
  then show "find (\<lambda>m. id' m = i) ((incrementView i ^^ n) media) = Some (r\<lparr>views := int n\<rparr>)"
    using incrementView_funpow [of i media r n] by (simp add: addOne_count)
next
  assume a: "distinct (map id' media) \<and> r \<in> set media \<and> views r = 0 \<and> n \<le> 2 ^ 53"
  then have "find (\<lambda>m. id' m = id' r) media = Some r"
    by (simp add: find_member)
  then have after: "find (\<lambda>m. id' m = id' r) ((incrementView (id' r) ^^ n) media)
      = Some (r\<lparr>views := int n\<rparr>)"
    using incrementView_funpow [of "id' r" media r n] a by (simp add: addOne_count)
  then show "r\<lparr>views := int n\<rparr> \<in> set ((incrementView (id' r) ^^ n) media)"
    by (auto simp: find_Some_iff)
  have d: "distinct (map id' ((incrementView (id' r) ^^ n) media))"
    using a by (simp only: ids_incrementView_funpow)
  show "\<forall>m\<in>set ((incrementView (id' r) ^^ n) media). id' m = id' r \<longrightarrow> m = r\<lparr>views := int n\<rparr>"
  proof (intro ballI impI)
    fix m
    assume "m \<in> set ((incrementView (id' r) ^^ n) media)" "id' m = id' r"
    with d after show "m = r\<lparr>views := int n\<rparr>"
      by (rule find_distinct)
  qed
next
  assume "find (\<lambda>m. id' m = i) media = Some r0"
  then show "incrementView i media
      = updateMedia i (noUpdates\<lparr>p_views := Some (addOne (views r0))\<rparr>) media"
    by (simp add: incrementView_def readViews_found)
next
  assume "find (\<lambda>m. id' m = i) media = Some r0"
  then show "find (\<lambda>m. id' m = i) (incrementView i media) = Some (r0\<lparr>views := addOne (views r0)\<rparr>)"
    by (rule incrementView_found)
next
  assume "- (2 ^ 53) \<le> views r0 \<and> views r0 < 2 ^ 53"
  then show "addOne (views r0) = views r0 + 1"
    by (simp add: addOne_exact)
qed

theorem incrementView_n_times_witness:
  "distinct (map id' [clip, sunset]) \<and> sunset \<in> set [clip, sunset] \<and> views sunset = 0
   \<and> (3 :: nat) \<le> 2 ^ 53
   \<and> sunset\<lparr>views := 3\<rparr> \<in> set ((incrementView (id' sunset) ^^ 3) [clip, sunset])
   \<and> find (\<lambda>m. id' m = id' sunset) [clip, sunset] = Some sunset
   \<and> find (\<lambda>m. id' m = id' sunset) ((incrementView (id' sunset) ^^ 3) [clip, sunset])
     = Some (sunset\<lparr>views := 3\<rparr>)
   \<and> find (\<lambda>m. id' m = id' sunset) (incrementView (id' sunset) [clip, sunset])
     = Some (sunset\<lparr>views := 1\<rparr>)"
proof -
  have pre: "distinct (map id' [clip, sunset])" "sunset \<in> set [clip, sunset]"
    "views sunset = 0" "(3 :: nat) \<le> 2 ^ 53"
    "find (\<lambda>m. id' m = id' sunset) [clip, sunset] = Some sunset"
    "- (2 ^ 53) \<le> views sunset" "views sunset < 2 ^ 53"
    by (simp_all add: sunset_def clip_def)
  note inst = incrementView_n_times [of "id' sunset" "[clip, sunset]" sunset 3 sunset]
  have a: "find (\<lambda>m. id' m = id' sunset) ((incrementView (id' sunset) ^^ 3) [clip, sunset])
      = Some (sunset\<lparr>views := int 3\<rparr>)"
    using inst pre by blast
  have b: "sunset\<lparr>views := int 3\<rparr> \<in> set ((incrementView (id' sunset) ^^ 3) [clip, sunset])"
    using inst pre by blast
  have c: "find (\<lambda>m. id' m = id' sunset) (incrementView (id' sunset) [clip, sunset])
      = Some (sunset\<lparr>views := addOne (views sunset)\<rparr>)"
    using inst pre by blast
  have d: "addOne (views sunset) = views sunset + 1"
    using inst pre by blast
  show ?thesis
    using pre a b c d by simp
qed

text \<open>
  C4, as the specification words it, fails in two ways. In a catalog where two records
  have the id and the first has view count 5, three calls leave the record that started
  at 0 with view count 8. And the call after \<open>2 ^ 53\<close> calls leaves the view count at
  \<open>2 ^ 53\<close>.
\<close>

theorem incrementView_counterexample:
  "map id' twins = [id' clip, id' clip]
   \<and> map views twins = [5, 0]
   \<and> map views ((incrementView (id' clip) ^^ 3) twins) = [8, 8]
   \<and> views sunset = 0
   \<and> find (\<lambda>m. id' m = id' sunset) ((incrementView (id' sunset) ^^ Suc (2 ^ 53)) [sunset])
     = Some (sunset\<lparr>views := 2 ^ 53\<rparr>)"
proof -
  have twins: "map id' twins = [id' clip, id' clip]" "map views twins = [5, 0]"
    by (simp_all add: twins_def sunset_def)
  have three: "map views ((incrementView (id' clip) ^^ 3) twins) = [8, 8]"
    by (simp add: numeral_3_eq_3 incrementView_def readViews_def updateMedia_def spread_def
        orElse_def noUpdates_def addOne_def twins_def sunset_def clip_def)
  have zero: "views sunset = 0"
    by (simp add: sunset_def)
  have "find (\<lambda>m. id' m = id' sunset) [sunset] = Some sunset"
    by simp
  then have "find (\<lambda>m. id' m = id' sunset) ((incrementView (id' sunset) ^^ 2 ^ 53) [sunset])
      = Some (sunset\<lparr>views := (addOne ^^ 2 ^ 53) (views sunset)\<rparr>)"
    by (rule incrementView_funpow)
  then have "find (\<lambda>m. id' m = id' sunset) ((incrementView (id' sunset) ^^ 2 ^ 53) [sunset])
      = Some (sunset\<lparr>views := 2 ^ 53\<rparr>)"
    using zero addOne_count [of "2 ^ 53"] by simp
  then have "find (\<lambda>m. id' m = id' sunset)
      (incrementView (id' sunset) ((incrementView (id' sunset) ^^ 2 ^ 53) [sunset]))
      = Some (sunset\<lparr>views := 2 ^ 53\<rparr>)"
    using incrementView_found
      [of "id' sunset" "(incrementView (id' sunset) ^^ 2 ^ 53) [sunset]" "sunset\<lparr>views := 2 ^ 53\<rparr>"]
    using addOne_limit by simp
  then have last: "find (\<lambda>m. id' m = id' sunset)
      ((incrementView (id' sunset) ^^ Suc (2 ^ 53)) [sunset]) = Some (sunset\<lparr>views := 2 ^ 53\<rparr>)"
    by (simp only: funpow.simps o_apply)
  show ?thesis
    using twins three zero last by blast
qed

section \<open>The catalog view\<close>

lemma includes_sublist: "includes' s t = sublist t s"
  by (induction s) (simp_all add: sublist_Cons_right)

lemma matchesSearch_passesText:
  "matchesSearch toLowerCase (toLowerCase searchTerm) r = passesText toLowerCase searchTerm r"
  by (simp add: matchesSearch_def passesText_def includes_sublist list_ex_iff)

lemma filteredMedia_filter:
  "filteredMedia toLowerCase media searchTerm activeCategory =
     filter (\<lambda>r. passesCategory activeCategory r \<and> passesText toLowerCase searchTerm r) media"
  by (simp add: filteredMedia_def inCategory_def passesCategory_def matchesSearch_passesText)

lemma filteredMedia_beach: "filteredMedia lowerASCII [sunset, clip] ''BEACH'' ''Todos'' = [sunset]"
  by (simp add: filteredMedia_def lowerASCII_def lowerChar_def inCategory_def
      matchesSearch_def sunset_def clip_def)

text \<open>
  C7. Whatever \<^verbatim>\<open>toLowerCase\<close> does, the view is the catalog filtered by the conjunction of
  the category filter and the text filter, so it holds exactly the records that pass both,
  in catalog order. For the empty search term, which \<^verbatim>\<open>toLowerCase\<close> leaves empty, every
  record passes the text filter.
\<close>

theorem filteredMedia_exact:
  "filteredMedia toLowerCase media searchTerm activeCategory =
     filter (\<lambda>r. passesCategory activeCategory r \<and> passesText toLowerCase searchTerm r) media
   \<and> set (filteredMedia toLowerCase media searchTerm activeCategory) =
       {r \<in> set media. passesCategory activeCategory r \<and> passesText toLowerCase searchTerm r}
   \<and> subseq (filteredMedia toLowerCase media searchTerm activeCategory) media
   \<and> (toLowerCase [] = [] \<longrightarrow> passesText toLowerCase [] r)"
  by (simp add: filteredMedia_filter passesText_def)

theorem filteredMedia_exact_witness:
  "lowerASCII [] = []
   \<and> passesText lowerASCII [] clip
   \<and> filteredMedia lowerASCII [sunset, clip] [] ''Todos'' = [sunset, clip]
   \<and> filter (\<lambda>r. passesCategory ''Todos'' r \<and> passesText lowerASCII ''BEACH'' r) [sunset, clip]
     = [sunset]"
proof -
  have empty: "lowerASCII [] = []"
    by (simp add: lowerASCII_def)
  then have passes: "passesText lowerASCII [] r" for r
    using filteredMedia_exact [of lowerASCII "[]" "[]" "[]" r] by simp
  have all: "filteredMedia lowerASCII [sunset, clip] [] ''Todos'' = [sunset, clip]"
    using filteredMedia_exact [of lowerASCII "[sunset, clip]" "[]" "''Todos''" clip] passes
    by (simp add: passesCategory_def)
  have "filter (\<lambda>r. passesCategory ''Todos'' r \<and> passesText lowerASCII ''BEACH'' r) [sunset, clip]
      = [sunset]"
    using filteredMedia_exact [of lowerASCII "[sunset, clip]" "''BEACH''" "''Todos''" clip]
      filteredMedia_beach
    by simp
  then show ?thesis
    using empty passes all by simp
qed

section \<open>The account directory\<close>

lemma login_iff:
  "fst (login c users s) \<longleftrightarrow>
     (\<exists>p. p \<noteq> [] \<and> users (username c) = Some p \<and> password c = Some p)"
  by (auto simp: login_def readKey_def given_def split: option.splits if_splits)

lemma register_keeps_nonEmpty:
  "nonEmptyPasswords users \<Longrightarrow> hasPassword c \<Longrightarrow> nonEmptyPasswords (snd (register c users))"
  by (auto simp: register_def nonEmptyPasswords_def hasPassword_def split: option.splits)

lemma registerAll_nonEmpty:
  "nonEmptyPasswords users \<Longrightarrow> \<forall>c\<in>set cs. hasPassword c \<Longrightarrow>
   nonEmptyPasswords (registerAll cs users)"
  by (induction cs arbitrary: users) (simp_all add: register_keeps_nonEmpty)

lemma registerAll_lookup:
  "nonEmptyPasswords users \<Longrightarrow> \<forall>c\<in>set cs. hasPassword c \<Longrightarrow>
   registerAll cs users u = Some p \<longleftrightarrow>
     users u = Some p \<or> \<lparr>username = u, password = Some p\<rparr> \<in> set (accepted cs users)"
proof (induction cs arbitrary: users)
  case Nil
  then show ?case by simp
next
  case (Cons c cs)
  have ne: "nonEmptyPasswords (snd (register c users))"
    using Cons.prems by (simp add: register_keeps_nonEmpty)
  have IH: "registerAll cs (snd (register c users)) u = Some p \<longleftrightarrow>
     snd (register c users) u = Some p
     \<or> \<lparr>username = u, password = Some p\<rparr> \<in> set (accepted cs (snd (register c users)))"
    using Cons.IH [OF ne] Cons.prems by simp
  show ?case
  proof (cases "truthyProp (readKey users (username c))")
    case True
    then show ?thesis using IH by (simp add: register_def)
  next
    case False
    then have none: "users (username c) = None"
      using Cons.prems(1) by (auto simp: readKey_def nonEmptyPasswords_def split: option.splits)
    obtain pc where pc: "password c = Some pc" "pc \<noteq> []"
      using Cons.prems(2) by (auto simp: hasPassword_def split: option.splits)
    have reg: "register c users = (True, users(username c \<mapsto> pc))"
      using False pc by (simp add: register_def)
    have c_eq: "(\<lparr>username = u, password = Some p\<rparr> = c) = (u = username c \<and> p = pc)"
      using pc by (cases c) auto
    show ?thesis
      using IH none by (auto simp: reg c_eq)
  qed
qed

lemma accepted_fresh:
  "d \<in> set (accepted cs users) \<Longrightarrow> \<not> truthyProp (readKey users (username d))"
proof (induction cs arbitrary: users)
  case Nil
  then show ?case by simp
next
  case (Cons c cs)
  show ?case
  proof (cases "truthyProp (readKey users (username c))")
    case True
    then show ?thesis using Cons by (simp add: register_def)
  next
    case False
    show ?thesis
    proof (cases "username d = username c")
      case True
      then show ?thesis using False by simp
    next
      case other: False
      then have "d \<in> set (accepted cs (users(username c := password c)))"
        using Cons.prems False by (auto simp: register_def)
      then have "\<not> truthyProp (readKey (users(username c := password c)) (username d))"
        by (rule Cons.IH)
      then show ?thesis using other by (simp add: readKey_def)
    qed
  qed
qed

lemma accepted_distinct:
  "\<forall>c\<in>set cs. hasPassword c \<Longrightarrow> distinct (map username (accepted cs users))"
proof (induction cs arbitrary: users)
  case Nil
  then show ?case by simp
next
  case (Cons c cs)
  obtain pc where pc: "password c = Some pc" "pc \<noteq> []"
    using Cons.prems by (auto simp: hasPassword_def split: option.splits)
  have "username c \<notin> username ` set (accepted cs (users(username c \<mapsto> pc)))"
  proof
    assume "username c \<in> username ` set (accepted cs (users(username c \<mapsto> pc)))"
    then obtain d where d: "d \<in> set (accepted cs (users(username c \<mapsto> pc)))"
      "username d = username c"
      by auto
    show False using accepted_fresh [OF d(1)] d(2) pc
      by (simp add: readKey_def)
  qed
  then show ?case using Cons pc
    by (auto simp: register_def)
qed

lemma nonEmptyPasswords_empty: "nonEmptyPasswords Map.empty"
  by (simp add: nonEmptyPasswords_def)

lemma register_stored:
  "nonEmptyPasswords users \<Longrightarrow> users (username c) = Some q \<Longrightarrow>
   register c users = (False, users)"
  by (auto simp: register_def readKey_def nonEmptyPasswords_def)

text \<open>
  C5. The sign-up of a new account, \<^verbatim>\<open>bob\<close> with the password \<^verbatim>\<open>Secret\<close>, on the empty
  directory: \<^verbatim>\<open>register\<close> accepts the pair and the directory of the next render holds it,
  but the \<^verbatim>\<open>login\<close> that \<^verbatim>\<open>handleSubmit\<close> calls right after it for the same pair reads
  the directory of the current render and is refused, so nobody is logged in and no error
  is shown. The same \<^verbatim>\<open>login\<close> on the directory of the next render succeeds.
\<close>

theorem auto_login_reads_old_directory:
  "handleSubmit True ''bob'' ''Secret'' Map.empty None = (None, [''bob'' \<mapsto> ''Secret''], None)
   \<and> register (bob ''Secret'') Map.empty = (True, [''bob'' \<mapsto> ''Secret''])
   \<and> login (bob ''Secret'') Map.empty None = (False, None)
   \<and> login (bob ''Secret'') [''bob'' \<mapsto> ''Secret''] None
     = (True, Some \<lparr>username = ''bob'', password = None\<rparr>)"
  by (simp add: handleSubmit_def bob_def login_def register_def readKey_def given_def
      objectPrototypeKeys_def)

text \<open>
  C6. After any sequence of valid registrations on the empty directory, the accounts that
  were accepted have pairwise distinct usernames and are exactly what the directory
  stores, and a further \<^verbatim>\<open>register\<close> call, with whatever password, for a username that
  the directory stores fails and leaves the directory, and with it the stored password,
  as it is.
\<close>

theorem register_duplicate_fails:
  assumes "\<forall>c\<in>set cs. validCredentials c"
  shows "distinct (map username (accepted cs Map.empty))
    \<and> (registerAll cs Map.empty u = Some p \<longleftrightarrow>
         \<lparr>username = u, password = Some p\<rparr> \<in> set (accepted cs Map.empty))
    \<and> (registerAll cs Map.empty (username c) = Some q \<longrightarrow>
         register c (registerAll cs Map.empty) = (False, registerAll cs Map.empty)
         \<and> snd (register c (registerAll cs Map.empty)) (username c) = Some q)"
proof -
  have all: "\<forall>c\<in>set cs. hasPassword c"
    using assms by (simp add: validCredentials_def)
  have ne: "nonEmptyPasswords (registerAll cs Map.empty)"
    using nonEmptyPasswords_empty all by (rule registerAll_nonEmpty)
  have "distinct (map username (accepted cs Map.empty))"
    using all by (rule accepted_distinct)
  moreover have "registerAll cs Map.empty u = Some p \<longleftrightarrow>
      \<lparr>username = u, password = Some p\<rparr> \<in> set (accepted cs Map.empty)"
    using registerAll_lookup [OF nonEmptyPasswords_empty all, of u p] by simp
  moreover have "register c (registerAll cs Map.empty) = (False, registerAll cs Map.empty)"
    if "registerAll cs Map.empty (username c) = Some q"
    using ne that by (rule register_stored)
  ultimately show ?thesis by simp
qed

theorem register_duplicate_fails_witness:
  "validCredentials (bob ''Secret'')
   \<and> accepted [bob ''Secret''] Map.empty = [bob ''Secret'']
   \<and> registerAll [bob ''Secret''] Map.empty (username (bob ''other'')) = Some ''Secret''
   \<and> register (bob ''other'') (registerAll [bob ''Secret''] Map.empty)
     = (False, registerAll [bob ''Secret''] Map.empty)"
  using
    register_duplicate_fails [of "[bob ''Secret'']" "''bob''" "''Secret''" "bob ''other''"
      "''Secret''"]
  by (simp add: bob_def validCredentials_def hasPassword_def register_def readKey_def
      objectPrototypeKeys_def)

section \<open>Generated ids\<close>

lemma showNat_small: "n < 10 \<Longrightarrow> showNat n = [digit n]"
  by (simp add: showNat.simps)

lemma showNat_large: "\<not> n < 10 \<Longrightarrow> showNat n = showNat (n div 10) @ [digit (n mod 10)]"
  by (subst showNat.simps) simp

lemma showNat_not_Nil: "showNat n \<noteq> []"
  by (cases "n < 10") (simp_all add: showNat_small showNat_large)

lemma digit_inj: "a < 10 \<Longrightarrow> b < 10 \<Longrightarrow> digit a = digit b \<Longrightarrow> a = b"
proof -
  assume a: "a < 10" and b: "b < 10" and eq: "digit a = digit b"
  have d: "distinct ''0123456789''" by simp
  have "a < length ''0123456789''" "b < length ''0123456789''" using a b by simp_all
  then show "a = b" using eq d unfolding digit_def
    by (simp only: nth_eq_iff_index_eq)
qed

lemma digit_no_hyphen: "d < 10 \<Longrightarrow> digit d \<noteq> CHR ''-''"
proof -
  assume "d < 10"
  then have "d < length ''0123456789''" by simp
  then have "''0123456789'' ! d \<in> set ''0123456789''" by (rule nth_mem)
  then show ?thesis unfolding digit_def by auto
qed

lemma showNat_no_hyphen: "CHR ''-'' \<notin> set (showNat n)"
proof (induction n rule: showNat.induct)
  case (1 n)
  show ?case
  proof (cases "n < 10")
    case True
    then show ?thesis using digit_no_hyphen [of n] by (simp add: showNat_small)
  next
    case False
    then show ?thesis using 1 digit_no_hyphen [of "n mod 10"] by (simp add: showNat_large)
  qed
qed

lemma showNat_inj: "showNat n = showNat m \<Longrightarrow> n = m"
proof (induction n arbitrary: m rule: showNat.induct)
  case (1 n)
  show ?case
  proof (cases "n < 10")
    case n: True
    show ?thesis
    proof (cases "m < 10")
      case True
      then show ?thesis using n "1.prems" digit_inj by (simp add: showNat_small)
    next
      case False
      then show ?thesis using n "1.prems" showNat_not_Nil [of "m div 10"]
        by (simp add: showNat_small showNat_large)
    qed
  next
    case n: False
    show ?thesis
    proof (cases "m < 10")
      case True
      then show ?thesis using n "1.prems" showNat_not_Nil [of "n div 10"]
        by (simp add: showNat_small showNat_large)
    next
      case False
      then have eq: "showNat (n div 10) = showNat (m div 10)"
        "digit (n mod 10) = digit (m mod 10)"
        using n "1.prems" by (simp_all add: showNat_large)
      have "n div 10 = m div 10" using "1.IH" [OF n eq(1)] .
      moreover have "n mod 10 = m mod 10"
        using eq(2) digit_inj [of "n mod 10" "m mod 10"] by simp
      ultimately show ?thesis by (metis div_mult_mod_eq)
    qed
  qed
qed

lemma takeWhile_first:
  "c \<notin> set xs \<Longrightarrow> takeWhile (\<lambda>x. x \<noteq> c) (xs @ c # ys) = xs"
  by (induction xs) auto

lemma split_at_first:
  assumes "c \<notin> set xs" "c \<notin> set xs'" "xs @ c # ys = xs' @ c # ys'"
  shows "xs = xs' \<and> ys = ys'"
proof -
  have "takeWhile (\<lambda>x. x \<noteq> c) (xs @ c # ys) = xs"
    using assms(1) by (rule takeWhile_first)
  moreover have "takeWhile (\<lambda>x. x \<noteq> c) (xs' @ c # ys') = xs'"
    using assms(2) by (rule takeWhile_first)
  ultimately have "xs = xs'" using assms(3) by simp
  then show ?thesis using assms(3) by simp
qed

lemma newId_inj: "newId d = newId e \<Longrightarrow> now d = now e \<and> random d = random e"
  unfolding newId_def
  using split_at_first [of "CHR ''-''" "showNat (now d)" "showNat (now e)" "random d" "random e"]
    showNat_no_hyphen showNat_inj by auto

lemma newId_not_Nil: "newId d \<noteq> []"
  by (simp add: newId_def)

lemma id_newMediaItem: "id' (newMediaItem f) = newId (fst f)"
  by (simp add: newMediaItem_def Let_def)

lemma views_newMediaItem: "views (newMediaItem f) = 0"
  by (simp add: newMediaItem_def Let_def)

lemma uploadDate_newMediaItem: "uploadDate (newMediaItem f) = isoString (fst f)"
  by (simp add: newMediaItem_def Let_def)

lemma distinct_new_ids:
  "distinct (map drawOf files) \<Longrightarrow> distinct (map (\<lambda>f. newId (fst f)) files)"
proof (induction files)
  case Nil
  show ?case by simp
next
  case (Cons f files)
  have "newId (fst f) \<noteq> newId (fst g)" if "g \<in> set files" for g
  proof
    assume "newId (fst f) = newId (fst g)"
    then have "drawOf f = drawOf g"
      using newId_inj [of "fst f" "fst g"] by (simp add: drawOf_def)
    then show False using Cons.prems that by auto
  qed
  then show ?case using Cons by auto
qed

lemma ids_addMedia:
  "map id' (addMedia files prev) = map (\<lambda>f. newId (fst f)) files @ map id' prev"
  by (simp add: addMedia_def id_newMediaItem comp_def)

lemma distinct_addMedia:
  "freshAdd files prev \<Longrightarrow> distinct (map id' prev) \<Longrightarrow> distinct (map id' (addMedia files prev))"
  using distinct_new_ids [of files] by (auto simp: ids_addMedia freshAdd_def)

lemma newId_noon: "newId noon = ''1700000000123-0.5''"
  by (simp add: newId_def noon_def showNat_small showNat_large digit_def)

lemma newId_noon2: "newId noon2 = ''1700000000123-0.75''"
  by (simp add: newId_def noon2_def showNat_small showNat_large digit_def)

lemma drawOf_noon:
  "drawOf (noon, f) = (1700000000123, ''0.5'')"
  "drawOf (noon2, f) = (1700000000123, ''0.75'')"
  by (simp_all add: drawOf_def noon_def noon2_def)

lemma sample_ids: "id' sunset = ''1700000000000-0.25''" "id' clip = ''1600000000000-0.5''"
  by (simp_all add: sunset_def clip_def)

text \<open>
  C8, as the code has it. \<^verbatim>\<open>addMedia\<close> puts the new records, in the order of the batch,
  in front of the records the catalog had. Each new record has the id made of its two
  draws, which is not empty, the view count 0 and the current time as upload date. The
  ids of the batch are pairwise distinct when the draws are (the timestamps alone may
  coincide), and the ids of the whole catalog are pairwise distinct when moreover none of
  the new ids was in the catalog, whose ids were distinct.
\<close>

theorem addMedia_batch:
  "addMedia files prev = map newMediaItem files @ prev
   \<and> (\<forall>f\<in>set files.
         id' (newMediaItem f) = newId (fst f) \<and> id' (newMediaItem f) \<noteq> []
         \<and> views (newMediaItem f) = 0 \<and> uploadDate (newMediaItem f) = isoString (fst f))
   \<and> (distinct (map drawOf files) \<longrightarrow> distinct (map id' (map newMediaItem files)))
   \<and> (freshAdd files prev \<and> distinct (map id' prev) \<longrightarrow>
         distinct (map id' (addMedia files prev)))"
proof (intro conjI ballI impI)
  show "addMedia files prev = map newMediaItem files @ prev"
    by (simp add: addMedia_def)
next
  assume "distinct (map drawOf files)"
  then have "distinct (map (\<lambda>f. newId (fst f)) files)"
    by (rule distinct_new_ids)
  then show "distinct (map id' (map newMediaItem files))"
    by (simp add: id_newMediaItem comp_def)
next
  assume "freshAdd files prev \<and> distinct (map id' prev)"
  then show "distinct (map id' (addMedia files prev))"
    by (simp add: distinct_addMedia)
qed (simp_all add: id_newMediaItem newId_not_Nil views_newMediaItem uploadDate_newMediaItem)

theorem addMedia_batch_witness:
  "now noon = now noon2
   \<and> distinct (map drawOf [(noon, photo), (noon2, photo)])
   \<and> freshAdd [(noon, photo), (noon2, photo)] [sunset, clip]
   \<and> distinct (map id' [sunset, clip])
   \<and> distinct (map id' (addMedia [(noon, photo), (noon2, photo)] [sunset, clip]))
   \<and> drop 2 (addMedia [(noon, photo), (noon2, photo)] [sunset, clip]) = [sunset, clip]"
proof -
  have pre: "distinct (map drawOf [(noon, photo), (noon2, photo)])"
    "freshAdd [(noon, photo), (noon2, photo)] [sunset, clip]"
    "distinct (map id' [sunset, clip])"
    by (simp_all add: freshAdd_def drawOf_noon newId_noon newId_noon2 sample_ids)
  have same: "now noon = now noon2"
    by (simp add: noon_def noon2_def)
  have after: "distinct (map id' (addMedia [(noon, photo), (noon2, photo)] [sunset, clip]))"
    using pre addMedia_batch [of "[(noon, photo), (noon2, photo)]" "[sunset, clip]"]
    by blast
  have "drop 2 (addMedia [(noon, photo), (noon2, photo)] [sunset, clip]) = [sunset, clip]"
    by (simp add: addMedia_def)
  then show ?thesis
    using pre same after by blast
qed

text \<open>
  C8, as the specification words it, fails when two records, of one batch or of two,
  draw the same timestamp and the same random number: they get the same id.
\<close>

theorem addMedia_same_draws_counterexample:
  "map id' (addMedia [(noon, photo), (noon, photo)] [])
     = [''1700000000123-0.5'', ''1700000000123-0.5'']
   \<and> \<not> distinct (map id' (addMedia [(noon, photo), (noon, photo)] []))
   \<and> map id' (addMedia [(noon, photo)] (addMedia [(noon, photo)] []))
     = [''1700000000123-0.5'', ''1700000000123-0.5'']"
  by (simp add: ids_addMedia newId_noon)

section \<open>Ids under sequences of calls\<close>

lemma id_spread: "id' (spread r u) = orElse (p_id u) (id' r)"
  by (simp add: spread_def)

lemma views_spread: "views (spread r u) = orElse (p_views u) (views r)"
  by (simp add: spread_def)

lemma uploadDate_spread: "uploadDate (spread r u) = orElse (p_uploadDate u) (uploadDate r)"
  by (simp add: spread_def)

lemma id_spread_keeps: "keepsId i u \<Longrightarrow> id' r = i \<Longrightarrow> id' (spread r u) = i"
  by (auto simp: id_spread keepsId_def orElse_def)

lemma distinct_deleteMedia:
  "distinct (map id' prev) \<Longrightarrow> distinct (map id' (deleteMedia i prev))"
  by (simp add: deleteMedia_def distinct_map_filter)

lemma ids_updateMedia: "keepsId i u \<Longrightarrow> map id' (updateMedia i u prev) = map id' prev"
  by (induction prev) (simp_all add: updateMedia_def id_spread_keeps)

lemma keepsId_noUpdates: "keepsId i (noUpdates\<lparr>p_views := Some v\<rparr>)"
  by (simp add: keepsId_def noUpdates_def)

lemma distinct_applyOp:
  "keepsIds c media \<Longrightarrow> distinct (map id' media) \<Longrightarrow> distinct (map id' (applyOp c media))"
proof (cases c)
  case (Add files)
  assume "keepsIds c media" "distinct (map id' media)"
  then show ?thesis using Add by (simp add: distinct_addMedia)
next
  case (Delete i)
  assume "distinct (map id' media)"
  then show ?thesis using Delete by (simp add: distinct_deleteMedia)
next
  case (Update i u)
  assume "keepsIds c media" "distinct (map id' media)"
  then show ?thesis using Update by (simp add: ids_updateMedia)
next
  case (IncrementView i)
  assume "distinct (map id' media)"
  then show ?thesis using IncrementView
    by (simp add: incrementView_def ids_updateMedia keepsId_noUpdates)
qed

lemma distinct_run:
  "allKeepIds ops media \<Longrightarrow> distinct (map id' media) \<Longrightarrow> distinct (map id' (run ops media))"
proof (induction ops arbitrary: media)
  case Nil
  then show ?case by simp
next
  case (Cons c cs)
  then show ?case by (simp add: distinct_applyOp)
qed

lemma tidyCalls_keep:
  "distinct (map id' [sunset, clip]) \<and> allKeepIds tidyCalls [sunset, clip]"
  by (simp add: tidyCalls_def freshAdd_def drawOf_noon keepsId_def noUpdates_def newId_noon
      newId_noon2 sample_ids ids_addMedia)

text \<open>
  C3, as the code has it. Starting from pairwise distinct ids, the ids stay pairwise
  distinct under every sequence of calls in which each \<^verbatim>\<open>addMedia\<close> is fresh for the
  catalog it meets and each \<^verbatim>\<open>updateMedia\<close> keeps the id.
\<close>

theorem ids_stay_distinct:
  assumes "distinct (map id' media)" and "allKeepIds ops media"
  shows "distinct (map id' (run ops media))"
  using assms by (simp add: distinct_run)

theorem ids_stay_distinct_witness:
  "distinct (map id' [sunset, clip])
   \<and> allKeepIds tidyCalls [sunset, clip]
   \<and> distinct (map id' (run tidyCalls [sunset, clip]))"
  using ids_stay_distinct [of "[sunset, clip]" tidyCalls] tidyCalls_keep
  by blast

text \<open>
  C3, as the specification words it, fails in two ways: an update may write the id of
  another record, and two records of a batch may get the same id.
\<close>

theorem ids_collide_counterexample:
  "distinct (map id' [sunset, clip])
   \<and> map id' (run [Update (id' sunset) (noUpdates\<lparr>p_id := Some (id' clip)\<rparr>)] [sunset, clip])
       = [id' clip, id' clip]
   \<and> map id' (run [Add [(noon, photo), (noon, photo)]] [sunset, clip])
       = [''1700000000123-0.5'', ''1700000000123-0.5'', id' sunset, id' clip]"
  by (simp add: updateMedia_def id_spread orElse_def noUpdates_def sample_ids ids_addMedia
      newId_noon)

section \<open>An upload that finishes after a view\<close>

text \<open>
  C9. The catalog holds one record, never viewed. An upload is started on this render;
  before it finishes the record is opened, and \<^verbatim>\<open>incrementView\<close> leaves it with view
  count 1. Then the upload finishes and calls \<^verbatim>\<open>addMedia\<close> through the closures of the
  render it was started on: the new record is put in front of the catalog of that render,
  and the record that stayed in the catalog is back at view count 0.
\<close>

theorem stale_add_resets_views:
  "views sunset = 0
   \<and> play [Call 0 (IncrementView (id' sunset)), Call 0 (Add [(noon, photo)])] [[sunset]]
     = [[sunset], [sunset\<lparr>views := 1\<rparr>], [newMediaItem (noon, photo), sunset]]"
  by (simp add: setValue_def incrementView_def readViews_def updateMedia_def spread_def
      orElse_def noUpdates_def addOne_def addMedia_def sunset_def)

end
